theory Spec2Isabelle
  imports Main
begin

section \<open>The schemabuilder data model\<close>

text \<open>
  The development embeds \<^verbatim>\<open>graphql/schemabuilder/types.go\<close>. The two
  \<^verbatim>\<open>interface{}\<close> positions of the source hold values this package never
  inspects: the native type handle (\<^verbatim>\<open>Object.Type\<close>) is the type parameter
  \<open>'t\<close> and a field function value (\<^verbatim>\<open>method.Fn\<close>,
  \<^verbatim>\<open>PaginationObject.Fn\<close>) is the type parameter \<open>'f\<close>.

  \<^verbatim>\<open>PaginationObject\<close> is declared first so that the short names \<open>Name\<close> and
  \<open>Fn\<close> denote \<^verbatim>\<open>Object.Name\<close> and \<^verbatim>\<open>method.Fn\<close>; its own fields are
  written \<open>PaginationObject.Name\<close> and \<open>PaginationObject.Fn\<close>.
\<close>

record 'f PaginationObject =
  Name :: string
  Fn :: 'f

record 'f method_t =
  MarkedNonNullable :: bool
  Fn :: 'f

text \<open>
  The record \<open>method_t\<close> is the struct \<^verbatim>\<open>method\<close> of the source, whose name is
  a keyword here.

  \<^verbatim>\<open>type Methods map[string]*method\<close>. Every \<^verbatim>\<open>*method\<close> that
  \<^verbatim>\<open>FieldFunc\<close> writes through is the cell it has just allocated with
  \<^verbatim>\<open>&method{Fn: f}\<close>, which nothing else can reach before it is stored, so the
  map holds the descriptors by value.
\<close>

type_synonym 'f Methods = "string \<rightharpoonup> 'f method_t"

text \<open>
  The \<^verbatim>\<open>Methods\<close> field of an \<^verbatim>\<open>Object\<close> is a Go map value, which is
  either \<^verbatim>\<open>nil\<close> (\<open>None\<close>, the zero value of the field) or an allocated map
  (\<open>Some m\<close>, possibly with no entries). A \<^verbatim>\<open>nil\<close> slice and an empty slice
  behave alike under \<^verbatim>\<open>append\<close>, so \<^verbatim>\<open>PaginatedFields\<close> is a list.
\<close>

record ('t, 'f) Object =
  Name :: string
  Description :: string
  Type :: 't
  Methods :: "'f Methods option"
  PaginatedFields :: "'f PaginationObject list"
  key :: string

text \<open>
  \<^verbatim>\<open>type FieldFuncOption func(*method)\<close>: an option receives the descriptor
  under construction and mutates it; as a function it returns the mutated descriptor.
  An option is a function value that returns and that writes nothing but the descriptor
  it is given, as \<^verbatim>\<open>NonNullable\<close>, the one option of the package, does.
\<close>

type_synonym 'f FieldFuncOption = "'f method_t \<Rightarrow> 'f method_t"

text \<open>
  The methods have the receiver \<^verbatim>\<open>s *Object\<close>; the receiver is an existing
  object, passed in and handed back as a value.
  A call on an \<^verbatim>\<open>Object\<close> either returns, or panics with a message. Both
  outcomes carry the state the receiver is in at that moment, because the methods mutate
  the receiver in place and a panic does not undo what was written before it.
\<close>

datatype 's outcome = Returned 's | Panicked string 's

section \<open>Operations\<close>

text \<open>\<^verbatim>\<open>func NonNullable(m *method) { m.MarkedNonNullable = true }\<close>\<close>

definition NonNullable :: "'f FieldFuncOption" where
  "NonNullable m = m\<lparr>MarkedNonNullable := True\<rparr>"

text \<open>
  Reading a Go map with the comma-ok form, \<^verbatim>\<open>_, ok := s.Methods[name]\<close>: a
  \<^verbatim>\<open>nil\<close> map has no entry for any key.
\<close>

definition lookup :: "'f Methods option \<Rightarrow> string \<Rightarrow> 'f method_t option" where
  "lookup ms name = (case ms of None \<Rightarrow> None | Some entries \<Rightarrow> entries name)"

text \<open>
  The loop \<^verbatim>\<open>for _, option := range options { option(m) }\<close>, from the first
  element of the slice to the last.
\<close>

fun apply_options :: "'f method_t \<Rightarrow> 'f FieldFuncOption list \<Rightarrow> 'f method_t" where
  "apply_options m [] = m"
| "apply_options m (option # options) = apply_options (option m) options"

text \<open>
  The descriptor that one \<^verbatim>\<open>FieldFunc\<close> call builds before it looks at the
  registry: \<^verbatim>\<open>m := &method{Fn: f}\<close>, where \<^verbatim>\<open>MarkedNonNullable\<close> has
  the zero value \<^verbatim>\<open>false\<close>, followed by the option loop.
\<close>

definition descriptor :: "'f \<Rightarrow> 'f FieldFuncOption list \<Rightarrow> 'f method_t" where
  "descriptor f options = apply_options \<lparr>MarkedNonNullable = False, Fn = f\<rparr> options"

text \<open>
  \<^verbatim>\<open>func (s *Object) FieldFunc(name string, f interface{}, options ...FieldFuncOption)\<close>,
  statement by statement: the lazy \<^verbatim>\<open>make(Methods)\<close>, the construction of
  the descriptor and the option loop, the duplicate check with its
  \<^verbatim>\<open>panic("duplicate method")\<close>, and the map assignment (which Go turns into a
  run-time panic on a \<^verbatim>\<open>nil\<close> map).
\<close>

definition FieldFunc ::
  "('t, 'f) Object \<Rightarrow> string \<Rightarrow> 'f \<Rightarrow> 'f FieldFuncOption list \<Rightarrow> ('t, 'f) Object outcome" where
  "FieldFunc s name f options =
     (let s1 = (case Methods s of
                  None \<Rightarrow> s\<lparr>Methods := Some Map.empty\<rparr>
                | Some _ \<Rightarrow> s);
          m = descriptor f options
      in case lookup (Methods s1) name of
           Some _ \<Rightarrow> Panicked ''duplicate method'' s1
         | None \<Rightarrow>
             (case Methods s1 of
                None \<Rightarrow> Panicked ''assignment to entry in nil map'' s1
              | Some entries \<Rightarrow> Returned (s1\<lparr>Methods := Some (entries(name \<mapsto> m))\<rparr>)))"

text \<open>\<^verbatim>\<open>func (s *Object) Key(f string) { s.key = f }\<close>\<close>

definition Key :: "('t, 'f) Object \<Rightarrow> string \<Rightarrow> ('t, 'f) Object outcome" where
  "Key s f = Returned (s\<lparr>key := f\<rparr>)"

text \<open>
  Modelled from the spec: the registration of a pagination descriptor. The source
  declares the exported field \<^verbatim>\<open>PaginatedFields []PaginationObject\<close> and the
  type \<^verbatim>\<open>PaginationObject\<close>, but no operation that fills the field; the
  specification says that descriptors are "appended directly to the Object Descriptor's
  paginatedFields sequence", append-only and without a check of the name, which in Go is
  \<^verbatim>\<open>s.PaginatedFields = append(s.PaginatedFields, p)\<close>.
\<close>

definition appendPaginatedField ::
  "('t, 'f) Object \<Rightarrow> 'f PaginationObject \<Rightarrow> ('t, 'f) Object outcome" where
  "appendPaginatedField s p = Returned (s\<lparr>PaginatedFields := PaginatedFields s @ [p]\<rparr>)"

section \<open>Host code: sequences of registrations\<close>

text \<open>
  Host code builds an \<^verbatim>\<open>Object\<close> by a sequence of registration calls on the
  same receiver. A panic ends the sequence at the call that raised it.
\<close>

datatype 'f registration =
    FieldFuncCall string 'f "'f FieldFuncOption list"
  | KeyCall string
  | PaginationCall "'f PaginationObject"

fun register :: "('t, 'f) Object \<Rightarrow> 'f registration \<Rightarrow> ('t, 'f) Object outcome" where
  "register s (FieldFuncCall name f options) = FieldFunc s name f options"
| "register s (KeyCall f) = Key s f"
| "register s (PaginationCall p) = appendPaginatedField s p"

fun run :: "('t, 'f) Object \<Rightarrow> 'f registration list \<Rightarrow> ('t, 'f) Object outcome" where
  "run s [] = Returned s"
| "run s (c # cs) =
     (case register s c of
        Returned s' \<Rightarrow> run s' cs
      | Panicked msg s' \<Rightarrow> Panicked msg s')"

section \<open>Observations\<close>

text \<open>
  The contents of the registry of an object: the entries of its \<^verbatim>\<open>Methods\<close>
  map, a \<^verbatim>\<open>nil\<close> map having none.
\<close>

definition registry :: "('t, 'f) Object \<Rightarrow> 'f Methods" where
  "registry s = lookup (Methods s)"

text \<open>
  Two objects have the same contents when they agree on every field, a \<^verbatim>\<open>nil\<close>
  registry and an allocated registry without entries counting as the same registry.
\<close>

definition same_contents :: "('t, 'f) Object \<Rightarrow> ('t, 'f) Object \<Rightarrow> bool" where
  "same_contents a b \<longleftrightarrow>
     Name a = Name b \<and> Description a = Description b \<and> Type a = Type b \<and>
     registry a = registry b \<and> PaginatedFields a = PaginatedFields b \<and> key a = key b"

fun same_outcome :: "('t, 'f) Object outcome \<Rightarrow> ('t, 'f) Object outcome \<Rightarrow> bool" where
  "same_outcome (Returned a) (Returned b) = same_contents a b"
| "same_outcome (Panicked m a) (Panicked n b) = (m = n \<and> same_contents a b)"
| "same_outcome _ _ = False"

section \<open>Basic facts about one call\<close>

lemma registry_nil [simp]: "Methods s = None \<Longrightarrow> registry s = Map.empty"
  by (simp add: registry_def lookup_def fun_eq_iff)

lemma registry_Some [simp]: "Methods s = Some entries \<Longrightarrow> registry s = entries"
  by (simp add: registry_def lookup_def fun_eq_iff)

lemma registry_present_allocated:
  "registry s name = Some d \<Longrightarrow> \<exists>entries. Methods s = Some entries \<and> entries name = Some d"
  by (cases "Methods s") simp_all

lemma FieldFunc_fresh:
  assumes "registry s name = None"
  shows "FieldFunc s name f options =
           Returned (s\<lparr>Methods := Some ((registry s)(name \<mapsto> descriptor f options))\<rparr>)"
proof (cases "Methods s")
  case None
  then show ?thesis
    by (simp add: FieldFunc_def lookup_def)
next
  case (Some entries)
  with assms have "entries name = None" by simp
  with Some show ?thesis
    by (simp add: FieldFunc_def lookup_def)
qed

lemma FieldFunc_duplicate:
  assumes "registry s name = Some d"
  shows "FieldFunc s name f options = Panicked ''duplicate method'' s"
proof -
  from assms obtain entries where "Methods s = Some entries" and "entries name = Some d"
    using registry_present_allocated by blast
  then show ?thesis
    by (simp add: FieldFunc_def lookup_def)
qed

lemma apply_options_append:
  "apply_options m (xs @ ys) = apply_options (apply_options m xs) ys"
  by (induction xs arbitrary: m) simp_all


lemma apply_options_fold: "apply_options m options = fold (\<lambda>option. option) options m"
  by (induction options arbitrary: m) simp_all

lemma apply_options_keeps:
  "(\<And>option m. option \<in> set options \<Longrightarrow> attr (option m) = attr m) \<Longrightarrow>
     attr (apply_options m options) = attr m"
  by (induction options arbitrary: m) simp_all

lemma registry_Methods_update [simp]: "registry (s\<lparr>Methods := Some entries\<rparr>) = entries"
  by simp

section \<open>Duplicate names\<close>

text \<open>
  Claim C2. Whenever a name is already present in the registry of an object, a further
  \<^verbatim>\<open>FieldFunc\<close> call with that name does not return: it panics with
  "duplicate method", whatever function and options it is given. At the panic the
  receiver is exactly the object it was before the call, so every earlier entry of the
  registry is still there with the descriptor it had.
\<close>

theorem FieldFunc_duplicate_panics_unchanged:
  assumes "name \<in> dom (registry s)"
  shows "FieldFunc s name f options = Panicked ''duplicate method'' s \<and>
         (\<forall>s'. FieldFunc s name f options \<noteq> Returned s') \<and>
         (\<forall>msg s' n. FieldFunc s name f options = Panicked msg s' \<longrightarrow>
                       registry s' n = registry s n)"
proof -
  from assms obtain d where "registry s name = Some d" by blast
  then have "FieldFunc s name f options = Panicked ''duplicate method'' s"
    by (rule FieldFunc_duplicate)
  then show ?thesis by simp
qed

theorem FieldFunc_duplicate_panics_unchanged_witness:
  "(let s = \<lparr>Name = ''User'', Description = [], Type = (),
              Methods = Some [''fullName'' \<mapsto> \<lparr>MarkedNonNullable = False, Fn = 1::nat\<rparr>,
                              ''age'' \<mapsto> \<lparr>MarkedNonNullable = True, Fn = 2\<rparr>],
              PaginatedFields = [], key = ''fullName''\<rparr>
    in ''age'' \<in> dom (registry s) \<and>
       FieldFunc s ''age'' 3 [] = Panicked ''duplicate method'' s \<and>
       registry s ''age'' = Some \<lparr>MarkedNonNullable = True, Fn = 2\<rparr> \<and>
       registry s ''fullName'' = Some \<lparr>MarkedNonNullable = False, Fn = 1\<rparr>)"
proof -
  define s :: "(unit, nat) Object" where
    "s = \<lparr>Name = ''User'', Description = [], Type = (),
          Methods = Some [''fullName'' \<mapsto> \<lparr>MarkedNonNullable = False, Fn = 1::nat\<rparr>,
                          ''age'' \<mapsto> \<lparr>MarkedNonNullable = True, Fn = 2\<rparr>],
          PaginatedFields = [], key = ''fullName''\<rparr>"
  have present: "''age'' \<in> dom (registry s)"
    by (simp add: s_def)
  have "FieldFunc s ''age'' 3 [] = Panicked ''duplicate method'' s"
    using FieldFunc_duplicate_panics_unchanged [OF present, of 3 "[]"] by simp
  moreover have "registry s ''age'' = Some \<lparr>MarkedNonNullable = True, Fn = 2\<rparr>"
    and "registry s ''fullName'' = Some \<lparr>MarkedNonNullable = False, Fn = 1\<rparr>"
    by (simp_all add: s_def)
  ultimately show ?thesis
    using present unfolding s_def by (simp only: Let_def)
qed

section \<open>Lazy initialisation of the registry\<close>

text \<open>
  Claim C7. A \<^verbatim>\<open>FieldFunc\<close> call on an object whose \<^verbatim>\<open>Methods\<close> map is
  still \<^verbatim>\<open>nil\<close> returns normally; afterwards the map is allocated and holds the
  new descriptor under the given name and nothing else. The caller does not have to
  allocate the map first.
\<close>

theorem FieldFunc_lazy_initialisation:
  assumes "Methods s = None"
  shows "\<exists>s'. FieldFunc s name f options = Returned s' \<and>
           Methods s' = Some [name \<mapsto> descriptor f options]"
proof -
  from assms have "registry s name = None" by simp
  then have "FieldFunc s name f options =
      Returned (s\<lparr>Methods := Some ((registry s)(name \<mapsto> descriptor f options))\<rparr>)"
    by (rule FieldFunc_fresh)
  with assms show ?thesis by simp
qed

theorem FieldFunc_lazy_initialisation_witness:
  "Methods \<lparr>Name = [], Description = [], Type = (), Methods = None,
            PaginatedFields = [], key = []\<rparr> = None \<and>
   (\<exists>s'. FieldFunc \<lparr>Name = [], Description = [], Type = (), Methods = None,
                    PaginatedFields = [], key = []\<rparr> ''fullName'' (1::nat) [] = Returned s' \<and>
         Methods s' = Some [''fullName'' \<mapsto> \<lparr>MarkedNonNullable = False, Fn = 1\<rparr>])"
proof -
  define s :: "(unit, nat) Object" where
    "s = \<lparr>Name = [], Description = [], Type = (), Methods = None,
          PaginatedFields = [], key = []\<rparr>"
  have nil: "Methods s = None" by (simp add: s_def)
  from FieldFunc_lazy_initialisation [OF nil, of "''fullName''" 1 "[]"]
  have "\<exists>s'. FieldFunc s ''fullName'' 1 [] = Returned s' \<and>
          Methods s' = Some [''fullName'' \<mapsto> \<lparr>MarkedNonNullable = False, Fn = 1\<rparr>]"
    by (simp add: descriptor_def)
  with nil show ?thesis unfolding s_def by simp
qed

section \<open>The empty field name\<close>

text \<open>
  Claim C10. \<^verbatim>\<open>FieldFunc\<close> does not look at the name beyond the registry
  lookup. With the empty string as the name, and no entry under the empty string yet, the
  call returns normally and the new descriptor is stored under the empty string; the
  other entries stay as they were.
\<close>

theorem FieldFunc_empty_name_accepted:
  assumes "[] \<notin> dom (registry s)"
  shows "\<exists>s'. FieldFunc s [] f options = Returned s' \<and>
           registry s' [] = Some (descriptor f options) \<and>
           dom (registry s') = insert [] (dom (registry s))"
proof -
  from assms have "registry s [] = None" by blast
  then have "FieldFunc s [] f options =
      Returned (s\<lparr>Methods := Some ((registry s)([] \<mapsto> descriptor f options))\<rparr>)"
    by (rule FieldFunc_fresh)
  then show ?thesis by simp
qed

theorem FieldFunc_empty_name_accepted_witness:
  "[] \<notin> dom (registry \<lparr>Name = ''User'', Description = [], Type = (),
                          Methods = Some [''age'' \<mapsto> \<lparr>MarkedNonNullable = False, Fn = 2::nat\<rparr>],
                          PaginatedFields = [], key = []\<rparr>) \<and>
   (\<exists>s'. FieldFunc \<lparr>Name = ''User'', Description = [], Type = (),
                    Methods = Some [''age'' \<mapsto> \<lparr>MarkedNonNullable = False, Fn = 2::nat\<rparr>],
                    PaginatedFields = [], key = []\<rparr> [] 7 [NonNullable] = Returned s' \<and>
         registry s' [] = Some \<lparr>MarkedNonNullable = True, Fn = 7\<rparr> \<and>
         dom (registry s') = {[], ''age''})"
proof -
  define s :: "(unit, nat) Object" where
    "s = \<lparr>Name = ''User'', Description = [], Type = (),
          Methods = Some [''age'' \<mapsto> \<lparr>MarkedNonNullable = False, Fn = 2::nat\<rparr>],
          PaginatedFields = [], key = []\<rparr>"
  have absent: "[] \<notin> dom (registry s)"
    by (simp add: s_def)
  have d: "dom (registry s) = {''age''}"
    by (simp add: s_def)
  from FieldFunc_empty_name_accepted [OF absent, of 7 "[NonNullable]"]
  have "\<exists>s'. FieldFunc s [] 7 [NonNullable] = Returned s' \<and>
          registry s' [] = Some \<lparr>MarkedNonNullable = True, Fn = 7\<rparr> \<and>
          dom (registry s') = {[], ''age''}"
    by (simp add: d descriptor_def NonNullable_def)
  with absent show ?thesis unfolding s_def by simp
qed

section \<open>The key field\<close>

text \<open>
  Claim C4. \<^verbatim>\<open>Key\<close> always returns normally and records its argument as the
  key, on every object and for every argument: it reads neither the registry nor the
  old key, so it may run before any \<^verbatim>\<open>FieldFunc\<close> call (in particular while
  \<^verbatim>\<open>Methods\<close> is still \<^verbatim>\<open>nil\<close>) and with a name that has no entry.
  Two \<^verbatim>\<open>Key\<close> calls in a row leave the argument of the second one as the key.
\<close>

theorem Key_last_write_wins:
  "(\<exists>s'. run s [KeyCall x, KeyCall y] = Returned s' \<and> key s' = y) \<and>
   (\<exists>s'. Key s f = Returned s' \<and> key s' = f \<and> Methods s' = Methods s) \<and>
   (\<exists>s'. Key (s\<lparr>Methods := None\<rparr>) f = Returned s' \<and> key s' = f \<and>
         f \<notin> dom (registry s'))"
  by (simp add: Key_def)

theorem Key_last_write_wins_witness:
  "\<exists>s'. run \<lparr>Name = ''User'', Description = [], Type = (), Methods = None,
               PaginatedFields = [], key = []\<rparr>
            [KeyCall ''x'', KeyCall ''y'', FieldFuncCall ''y'' (1::nat) []] = Returned s' \<and>
        key s' = ''y''"
proof -
  define s :: "(unit, nat) Object" where
    "s = \<lparr>Name = ''User'', Description = [], Type = (), Methods = None,
          PaginatedFields = [], key = []\<rparr>"
  from Key_last_write_wins [of s "''x''" "''y''"]
  obtain s1 where r: "run s [KeyCall ''x'', KeyCall ''y''] = Returned s1" and k: "key s1 = ''y''"
    by blast
  from r have s1: "s1 = s\<lparr>key := ''y''\<rparr>"
    by (simp add: Key_def)
  have "registry s1 ''y'' = None"
    by (simp add: s1 s_def)
  then have "FieldFunc s1 ''y'' 1 [] =
      Returned (s1\<lparr>Methods := Some ((registry s1)(''y'' \<mapsto> descriptor 1 []))\<rparr>)"
    by (rule FieldFunc_fresh)
  then have "run s [KeyCall ''x'', KeyCall ''y'', FieldFuncCall ''y'' 1 []] =
      Returned (s1\<lparr>Methods := Some ((registry s1)(''y'' \<mapsto> descriptor 1 []))\<rparr>)"
    by (simp add: Key_def s1)
  with k show ?thesis unfolding s_def by simp
qed

section \<open>Frame conditions\<close>

text \<open>
  Claim C9. A \<^verbatim>\<open>FieldFunc\<close> call that returns has changed nothing but the
  \<^verbatim>\<open>Methods\<close> field: \<^verbatim>\<open>Name\<close>, \<^verbatim>\<open>Description\<close>,
  \<^verbatim>\<open>Type\<close>, \<^verbatim>\<open>key\<close> and \<^verbatim>\<open>PaginatedFields\<close> are as before.
  A \<^verbatim>\<open>Key\<close> call has changed nothing but the \<^verbatim>\<open>key\<close> field:
  \<^verbatim>\<open>Name\<close>, \<^verbatim>\<open>Description\<close>, \<^verbatim>\<open>Type\<close>, \<^verbatim>\<open>Methods\<close>
  and \<^verbatim>\<open>PaginatedFields\<close> are as before.
\<close>

theorem registration_frame:
  "(FieldFunc s name f options = Returned s' \<longrightarrow>
      s' = s\<lparr>Methods := Methods s'\<rparr> \<and>
      Name s' = Name s \<and> Description s' = Description s \<and> Type s' = Type s \<and>
      key s' = key s \<and> PaginatedFields s' = PaginatedFields s) \<and>
   (Key s k = Returned s'' \<longrightarrow>
      s'' = s\<lparr>key := key s''\<rparr> \<and>
      Name s'' = Name s \<and> Description s'' = Description s \<and> Type s'' = Type s \<and>
      Methods s'' = Methods s \<and> PaginatedFields s'' = PaginatedFields s)"
proof (intro conjI impI)
  assume r: "FieldFunc s name f options = Returned s'"
  have absent: "registry s name = None"
  proof (cases "registry s name")
    case None
    then show ?thesis .
  next
    case (Some d)
    then have "FieldFunc s name f options = Panicked ''duplicate method'' s"
      by (rule FieldFunc_duplicate)
    with r show ?thesis by simp
  qed
  from FieldFunc_fresh [OF absent, of f options] r
  have s': "s' = s\<lparr>Methods := Some ((registry s)(name \<mapsto> descriptor f options))\<rparr>"
    by simp
  show "s' = s\<lparr>Methods := Methods s'\<rparr>" by (subst (2) s', subst s') simp
  show "Name s' = Name s" by (simp add: s')
  show "Description s' = Description s" by (simp add: s')
  show "Type s' = Type s" by (simp add: s')
  show "key s' = key s" by (simp add: s')
  show "PaginatedFields s' = PaginatedFields s" by (simp add: s')
next
  assume "Key s k = Returned s''"
  then have s'': "s'' = s\<lparr>key := k\<rparr>" by (simp add: Key_def)
  show "s'' = s\<lparr>key := key s''\<rparr>" by (simp add: s'')
  show "Name s'' = Name s" by (simp add: s'')
  show "Description s'' = Description s" by (simp add: s'')
  show "Type s'' = Type s" by (simp add: s'')
  show "Methods s'' = Methods s" by (simp add: s'')
  show "PaginatedFields s'' = PaginatedFields s" by (simp add: s'')
qed

theorem registration_frame_witness:
  "FieldFunc \<lparr>Name = ''User'', Description = ''a user'', Type = (), Methods = None,
              PaginatedFields = [\<lparr>PaginationObject.Name = ''friends'', PaginationObject.Fn = 9::nat\<rparr>],
              key = ''id''\<rparr> ''age'' 2 [NonNullable] =
     Returned \<lparr>Name = ''User'', Description = ''a user'', Type = (),
               Methods = Some [''age'' \<mapsto> \<lparr>MarkedNonNullable = True, Fn = 2\<rparr>],
               PaginatedFields = [\<lparr>PaginationObject.Name = ''friends'', PaginationObject.Fn = 9\<rparr>],
               key = ''id''\<rparr> \<and>
   Key \<lparr>Name = ''User'', Description = ''a user'', Type = (), Methods = None,
        PaginatedFields = [\<lparr>PaginationObject.Name = ''friends'', PaginationObject.Fn = 9::nat\<rparr>],
        key = ''id''\<rparr> ''age'' =
     Returned \<lparr>Name = ''User'', Description = ''a user'', Type = (), Methods = None,
               PaginatedFields = [\<lparr>PaginationObject.Name = ''friends'', PaginationObject.Fn = 9\<rparr>],
               key = ''age''\<rparr>"
proof -
  define s :: "(unit, nat) Object" where
    "s = \<lparr>Name = ''User'', Description = ''a user'', Type = (), Methods = None,
          PaginatedFields = [\<lparr>PaginationObject.Name = ''friends'', PaginationObject.Fn = 9::nat\<rparr>],
          key = ''id''\<rparr>"
  define s' where
    "s' = s\<lparr>Methods := Some [''age'' \<mapsto> \<lparr>MarkedNonNullable = True, Fn = 2::nat\<rparr>]\<rparr>"
  define s'' where "s'' = s\<lparr>key := ''age''\<rparr>"
  have r: "FieldFunc s ''age'' 2 [NonNullable] = Returned s'"
    by (simp add: FieldFunc_def lookup_def descriptor_def NonNullable_def s_def s'_def)
  have k: "Key s ''age'' = Returned s''"
    by (simp add: Key_def s''_def)
  from registration_frame [of s "''age''" 2 "[NonNullable]" s' "''age''" s''] r k
  have "Name s' = Name s \<and> Description s' = Description s \<and> Type s' = Type s \<and>
        key s' = key s \<and> PaginatedFields s' = PaginatedFields s \<and>
        Name s'' = Name s \<and> Description s'' = Description s \<and> Type s'' = Type s \<and>
        Methods s'' = Methods s \<and> PaginatedFields s'' = PaginatedFields s"
    by simp
  with r k show ?thesis
    unfolding s'_def s''_def s_def by simp
qed

section \<open>Sequences of field registrations\<close>

lemma run_FieldFunc_calls:
  assumes "distinct (map fst calls)" and "fst ` set calls \<inter> dom (registry s) = {}"
  shows "\<exists>s'. run s (map (\<lambda>(name, f, options). FieldFuncCall name f options) calls) = Returned s' \<and>
           (\<forall>(name, f, options) \<in> set calls. registry s' name = Some (descriptor f options)) \<and>
           (\<forall>name. name \<notin> fst ` set calls \<longrightarrow> registry s' name = registry s name)"
  using assms
proof (induction calls arbitrary: s)
  case Nil
  then show ?case by simp
next
  case (Cons c calls)
  obtain name f options where c: "c = (name, f, options)"
    by (cases c)
  from Cons.prems(2) have absent: "registry s name = None"
    by (auto simp: c)
  define s1 where "s1 = s\<lparr>Methods := Some ((registry s)(name \<mapsto> descriptor f options))\<rparr>"
  have step: "FieldFunc s name f options = Returned s1"
    using FieldFunc_fresh [OF absent] by (simp add: s1_def)
  have reg1: "registry s1 = (registry s)(name \<mapsto> descriptor f options)"
    by (simp add: s1_def)
  from Cons.prems(1) have d: "distinct (map fst calls)" and notin: "name \<notin> fst ` set calls"
    by (simp_all add: c)
  from Cons.prems(2) notin have disj: "fst ` set calls \<inter> dom (registry s1) = {}"
    by (auto simp: reg1)
  from Cons.IH [OF d disj] obtain s'
    where r: "run s1 (map (\<lambda>(name, f, options). FieldFuncCall name f options) calls) = Returned s'"
      and stored: "\<forall>(name, f, options) \<in> set calls. registry s' name = Some (descriptor f options)"
      and kept: "\<forall>name. name \<notin> fst ` set calls \<longrightarrow> registry s' name = registry s1 name"
    by blast
  have "run s (map (\<lambda>(name, f, options). FieldFuncCall name f options) (c # calls)) = Returned s'"
    using step r by (simp add: c)
  moreover have "registry s' name = Some (descriptor f options)"
    using kept notin by (simp add: reg1)
  moreover have "\<forall>n. n \<notin> fst ` set (c # calls) \<longrightarrow> registry s' n = registry s n"
    using kept by (simp add: reg1 c)
  ultimately show ?case
    using stored by (auto simp: c)
qed

text \<open>
  Claim C1. Take any sequence of \<^verbatim>\<open>FieldFunc\<close> calls on one object whose names
  are pairwise distinct and not yet in the registry (an object is created with an empty
  registry and only \<^verbatim>\<open>FieldFunc\<close> adds to it, so the names of the calls so far
  are all the names there are). Every call returns, and afterwards the names of the registry
  are the earlier ones together with the registered ones, each registered name has one
  entry, and that entry is the descriptor built from the function of its own call
  (\<^verbatim>\<open>&method{Fn: f}\<close>) with the options of its own call applied in order.
  Entries under other names are as before.
\<close>

theorem FieldFunc_sequence_distinct_names:
  assumes "distinct (map fst calls)" and "fst ` set calls \<inter> dom (registry s) = {}"
  shows "\<exists>s'. run s (map (\<lambda>(name, f, options). FieldFuncCall name f options) calls) = Returned s' \<and>
           dom (registry s') = dom (registry s) \<union> fst ` set calls \<and>
           (\<forall>(name, f, options) \<in> set calls.
              registry s' name =
                Some (apply_options \<lparr>MarkedNonNullable = False, Fn = f\<rparr> options)) \<and>
           (\<forall>name. name \<notin> fst ` set calls \<longrightarrow> registry s' name = registry s name)"
proof -
  from run_FieldFunc_calls [OF assms] obtain s'
    where r: "run s (map (\<lambda>(name, f, options). FieldFuncCall name f options) calls) = Returned s'"
      and stored: "\<forall>(name, f, options) \<in> set calls. registry s' name = Some (descriptor f options)"
      and kept: "\<forall>name. name \<notin> fst ` set calls \<longrightarrow> registry s' name = registry s name"
    by blast
  have "dom (registry s') = dom (registry s) \<union> fst ` set calls"
  proof (rule set_eqI)
    fix n
    show "n \<in> dom (registry s') \<longleftrightarrow> n \<in> dom (registry s) \<union> fst ` set calls"
    proof (cases "n \<in> fst ` set calls")
      case True
      then obtain f options where "(n, f, options) \<in> set calls" by auto
      with stored have "registry s' n = Some (descriptor f options)" by auto
      with True show ?thesis by auto
    next
      case False
      with kept have "registry s' n = registry s n" by simp
      with False show ?thesis by (simp add: domIff)
    qed
  qed
  with r stored kept show ?thesis
    by (auto simp: descriptor_def)
qed

theorem FieldFunc_sequence_distinct_names_witness:
  "\<exists>s'. run \<lparr>Name = ''User'', Description = [], Type = (), Methods = None,
               PaginatedFields = [], key = []\<rparr>
            [FieldFuncCall ''fullName'' (1::nat) [], FieldFuncCall ''age'' 2 [NonNullable]] =
          Returned s' \<and>
        dom (registry s') = {''fullName'', ''age''} \<and>
        registry s' ''fullName'' = Some \<lparr>MarkedNonNullable = False, Fn = 1\<rparr> \<and>
        registry s' ''age'' = Some \<lparr>MarkedNonNullable = True, Fn = 2\<rparr>"
proof -
  define s :: "(unit, nat) Object" where
    "s = \<lparr>Name = ''User'', Description = [], Type = (), Methods = None,
          PaginatedFields = [], key = []\<rparr>"
  define calls :: "(string \<times> nat \<times> nat FieldFuncOption list) list" where
    "calls = [(''fullName'', 1, []), (''age'', 2, [NonNullable])]"
  have names: "distinct (map fst calls)"
    by (simp add: calls_def)
  have new: "fst ` set calls \<inter> dom (registry s) = {}"
    by (simp add: s_def)
  from FieldFunc_sequence_distinct_names [OF names new] obtain s'
    where r: "run s (map (\<lambda>(name, f, options). FieldFuncCall name f options) calls) = Returned s'"
      and d: "dom (registry s') = dom (registry s) \<union> fst ` set calls"
      and e: "\<forall>(name, f, options) \<in> set calls.
                registry s' name =
                  Some (apply_options \<lparr>MarkedNonNullable = False, Fn = f\<rparr> options)"
    by blast
  from r have "run s [FieldFuncCall ''fullName'' 1 [], FieldFuncCall ''age'' 2 [NonNullable]] =
      Returned s'"
    by (simp add: calls_def)
  moreover from d have "dom (registry s') = {''fullName'', ''age''}"
    by (simp add: calls_def s_def)
  moreover from e have "registry s' ''fullName'' = Some \<lparr>MarkedNonNullable = False, Fn = 1\<rparr>"
    and "registry s' ''age'' = Some \<lparr>MarkedNonNullable = True, Fn = 2\<rparr>"
    by (simp_all add: calls_def NonNullable_def)
  ultimately show ?thesis unfolding s_def by blast
qed

section \<open>Options\<close>

lemma NonNullable_marks: "MarkedNonNullable (NonNullable m)"
  by (simp add: NonNullable_def)

lemma apply_options_NonNullable:
  assumes "\<forall>option \<in> set options.
             option = NonNullable \<or> (\<forall>m. MarkedNonNullable (option m) = MarkedNonNullable m)"
  shows "MarkedNonNullable (apply_options m options) \<longleftrightarrow>
           MarkedNonNullable m \<or> NonNullable \<in> set options"
  using assms
proof (induction options arbitrary: m)
  case Nil
  then show ?case by simp
next
  case (Cons option options)
  from Cons.prems have rest: "\<forall>option \<in> set options.
      option = NonNullable \<or> (\<forall>m. MarkedNonNullable (option m) = MarkedNonNullable m)"
    by simp
  from Cons.prems have
    "option = NonNullable \<or> (\<forall>m. MarkedNonNullable (option m) = MarkedNonNullable m)"
    by simp
  then show ?case
  proof
    assume "option = NonNullable"
    then show ?thesis
      using Cons.IH [OF rest, of "option m"] by (simp add: NonNullable_marks)
  next
    assume keeps: "\<forall>m. MarkedNonNullable (option m) = MarkedNonNullable m"
    have "option \<noteq> NonNullable \<or> MarkedNonNullable m"
    proof (cases "option = NonNullable")
      case True
      with keeps [rule_format, of m] show ?thesis by (simp add: NonNullable_marks)
    next
      case False
      then show ?thesis by simp
    qed
    then show ?thesis
      using Cons.IH [OF rest, of "option m"] keeps by auto
  qed
qed

text \<open>
  Claim C3. Let a \<^verbatim>\<open>FieldFunc\<close> call register a name that is not yet in the
  registry, with options that are each either \<^verbatim>\<open>NonNullable\<close> or an option
  that leaves \<^verbatim>\<open>MarkedNonNullable\<close> alone (in the source \<^verbatim>\<open>NonNullable\<close>
  is the only option there is). Then the call returns and the stored descriptor has
  \<^verbatim>\<open>MarkedNonNullable\<close> true exactly when \<^verbatim>\<open>NonNullable\<close> was among the
  options: true when it was passed, false when it was omitted. Whatever the options are,
  the entry of every other name of the registry is the same descriptor as before the
  call, so its override has not changed.
\<close>

theorem NonNullable_sets_override_of_its_field_only:
  assumes "name \<notin> dom (registry s)"
  shows "\<exists>s' d. FieldFunc s name f options = Returned s' \<and> registry s' name = Some d \<and>
           ((\<forall>option \<in> set options.
               option = NonNullable \<or> (\<forall>m. MarkedNonNullable (option m) = MarkedNonNullable m))
            \<longrightarrow> (MarkedNonNullable d \<longleftrightarrow> NonNullable \<in> set options)) \<and>
           (\<forall>other. other \<noteq> name \<longrightarrow> registry s' other = registry s other)"
proof -
  from assms have "registry s name = None" by blast
  then have "FieldFunc s name f options =
      Returned (s\<lparr>Methods := Some ((registry s)(name \<mapsto> descriptor f options))\<rparr>)"
    by (rule FieldFunc_fresh)
  moreover have "(\<forall>option \<in> set options.
        option = NonNullable \<or> (\<forall>m. MarkedNonNullable (option m) = MarkedNonNullable m))
      \<longrightarrow> (MarkedNonNullable (descriptor f options) \<longleftrightarrow> NonNullable \<in> set options)"
    using apply_options_NonNullable [of options "\<lparr>MarkedNonNullable = False, Fn = f\<rparr>"]
    by (simp add: descriptor_def)
  ultimately show ?thesis by simp
qed

theorem NonNullable_sets_override_of_its_field_only_witness:
  "\<exists>s1 s2. FieldFunc \<lparr>Name = ''User'', Description = [], Type = (), Methods = None,
                       PaginatedFields = [], key = []\<rparr> ''fullName'' (1::nat) [] = Returned s1 \<and>
           registry s1 ''fullName'' = Some \<lparr>MarkedNonNullable = False, Fn = 1\<rparr> \<and>
           FieldFunc s1 ''age'' 2 [NonNullable] = Returned s2 \<and>
           registry s2 ''age'' = Some \<lparr>MarkedNonNullable = True, Fn = 2\<rparr> \<and>
           registry s2 ''fullName'' = Some \<lparr>MarkedNonNullable = False, Fn = 1\<rparr>"
proof -
  define s :: "(unit, nat) Object" where
    "s = \<lparr>Name = ''User'', Description = [], Type = (), Methods = None,
          PaginatedFields = [], key = []\<rparr>"
  define s1 where "s1 = s\<lparr>Methods := Some [''fullName'' \<mapsto> \<lparr>MarkedNonNullable = False, Fn = 1::nat\<rparr>]\<rparr>"
  have r1: "FieldFunc s ''fullName'' 1 [] = Returned s1"
    by (simp add: FieldFunc_def lookup_def descriptor_def s_def s1_def)
  have e1: "registry s1 ''fullName'' = Some \<lparr>MarkedNonNullable = False, Fn = 1\<rparr>"
    by (simp add: s1_def)
  have absent: "''age'' \<notin> dom (registry s1)"
    by (simp add: s1_def)
  have only: "\<forall>option \<in> set [NonNullable :: nat FieldFuncOption].
      option = NonNullable \<or> (\<forall>m. MarkedNonNullable (option m) = MarkedNonNullable m)"
    by simp
  from NonNullable_sets_override_of_its_field_only [OF absent, of 2 "[NonNullable]"] obtain s2 d
    where r2: "FieldFunc s1 ''age'' 2 [NonNullable] = Returned s2"
      and e2: "registry s2 ''age'' = Some d"
      and nn: "(\<forall>option \<in> set [NonNullable :: nat FieldFuncOption].
                  option = NonNullable \<or> (\<forall>m. MarkedNonNullable (option m) = MarkedNonNullable m))
               \<longrightarrow> (MarkedNonNullable d \<longleftrightarrow> NonNullable \<in> set [NonNullable :: nat FieldFuncOption])"
      and others: "\<forall>other. other \<noteq> ''age'' \<longrightarrow> registry s2 other = registry s1 other"
    by blast
  from nn only have "MarkedNonNullable d" by simp
  moreover from r2 e2 have "Fn d = 2"
    by (simp add: FieldFunc_def lookup_def descriptor_def NonNullable_def s1_def s_def split: if_splits)
       auto
  ultimately have d: "d = \<lparr>MarkedNonNullable = True, Fn = 2\<rparr>"
    by (cases d) simp
  from others e1 have "registry s2 ''fullName'' = Some \<lparr>MarkedNonNullable = False, Fn = 1\<rparr>"
    by simp
  with r1 e1 r2 e2 d show ?thesis unfolding s_def by blast
qed

text \<open>
  Claim C5. The option loop of \<^verbatim>\<open>FieldFunc\<close> runs over the options from the first
  to the last, each one working on the descriptor the earlier ones left: the stored
  descriptor is the left-to-right fold of the options over the fresh descriptor, and one
  more option at the end of the list is applied to the result of the list without it.
  Hence, for any attribute of the descriptor, when an option that sets the attribute to
  \<open>v\<close> is followed only by options that leave the attribute alone, the stored
  descriptor has \<open>v\<close> there, whatever the options before it (which may have set the
  same attribute) did.
\<close>

theorem options_applied_in_order_last_wins:
  assumes "name \<notin> dom (registry s)"
    and "\<forall>m. attr (late m) = v"
    and "\<forall>option \<in> set post. \<forall>m. attr (option m) = attr m"
  shows "\<exists>s' d. FieldFunc s name f (pre @ late # post) = Returned s' \<and>
           registry s' name = Some d \<and>
           d = fold (\<lambda>option. option) (pre @ late # post) \<lparr>MarkedNonNullable = False, Fn = f\<rparr> \<and>
           d = apply_options (late (descriptor f pre)) post \<and>
           attr d = v"
proof -
  let ?options = "pre @ late # post"
  from assms(1) have "registry s name = None" by blast
  then have "FieldFunc s name f ?options =
      Returned (s\<lparr>Methods := Some ((registry s)(name \<mapsto> descriptor f ?options))\<rparr>)"
    by (rule FieldFunc_fresh)
  moreover have "descriptor f ?options =
      fold (\<lambda>option. option) ?options \<lparr>MarkedNonNullable = False, Fn = f\<rparr>"
    unfolding descriptor_def by (rule apply_options_fold)
  moreover have split: "descriptor f ?options = apply_options (late (descriptor f pre)) post"
    by (simp add: descriptor_def apply_options_append)
  moreover have "attr (descriptor f ?options) = v"
  proof -
    have "attr (apply_options (late (descriptor f pre)) post) = attr (late (descriptor f pre))"
      using assms(3) by (intro apply_options_keeps) simp
    with assms(2) split show ?thesis by simp
  qed
  ultimately show ?thesis by simp
qed

theorem options_applied_in_order_last_wins_witness:
  "\<exists>s'. FieldFunc \<lparr>Name = ''User'', Description = [], Type = (), Methods = None,
                   PaginatedFields = [], key = []\<rparr> ''age'' (2::nat)
            [NonNullable, (\<lambda>m. m\<lparr>MarkedNonNullable := False\<rparr>), (\<lambda>m. m\<lparr>Fn := 5\<rparr>)] =
          Returned s' \<and>
        registry s' ''age'' = Some \<lparr>MarkedNonNullable = False, Fn = 5\<rparr>"
proof -
  define s :: "(unit, nat) Object" where
    "s = \<lparr>Name = ''User'', Description = [], Type = (), Methods = None,
          PaginatedFields = [], key = []\<rparr>"
  have absent: "''age'' \<notin> dom (registry s)"
    by (simp add: s_def)
  have sets: "\<forall>m :: nat method_t. MarkedNonNullable (m\<lparr>MarkedNonNullable := False\<rparr>) = False"
    by simp
  have keeps: "\<forall>option \<in> set [\<lambda>m :: nat method_t. m\<lparr>Fn := 5\<rparr>].
                 \<forall>m. MarkedNonNullable (option m) = MarkedNonNullable m"
    by simp
  from options_applied_in_order_last_wins
    [of "''age''" s MarkedNonNullable "\<lambda>m. m\<lparr>MarkedNonNullable := False\<rparr>" False
        "[\<lambda>m. m\<lparr>Fn := 5\<rparr>]" 2 "[NonNullable]", OF absent sets keeps]
  obtain s' d
    where r: "FieldFunc s ''age'' 2
                ([NonNullable] @ (\<lambda>m. m\<lparr>MarkedNonNullable := False\<rparr>) # [\<lambda>m. m\<lparr>Fn := 5\<rparr>]) =
              Returned s'"
      and e: "registry s' ''age'' = Some d"
      and d: "d = apply_options ((\<lambda>m. m\<lparr>MarkedNonNullable := False\<rparr>) (descriptor 2 [NonNullable]))
                    [\<lambda>m. m\<lparr>Fn := 5\<rparr>]"
    by blast
  from d have "d = \<lparr>MarkedNonNullable = False, Fn = 5\<rparr>"
    by (simp add: descriptor_def NonNullable_def)
  with r e show ?thesis unfolding s_def by simp
qed

section \<open>Pagination descriptors\<close>

lemma run_PaginationCalls:
  "run s (map PaginationCall ps) = Returned (s\<lparr>PaginatedFields := PaginatedFields s @ ps\<rparr>)"
proof (induction ps arbitrary: s)
  case Nil
  show ?case by simp
next
  case (Cons p ps)
  show ?case
    by (simp add: appendPaginatedField_def Cons.IH)
qed

text \<open>
  Claim C6. Registering pagination descriptors appends them: registering \<open>p1\<close> and
  then \<open>p2\<close> always returns and leaves the earlier descriptors followed by \<open>p1\<close>
  and \<open>p2\<close>, in that order, so on an object without pagination descriptors the
  result is the list of \<open>p1\<close> and \<open>p2\<close>. Nothing is said about the names, which
  may be equal. In general a sequence of such registrations extends the list by exactly
  the registered descriptors in the order of the calls.
\<close>

theorem pagination_registration_appends:
  "(\<exists>s'. run s [PaginationCall p1, PaginationCall p2] = Returned s' \<and>
         PaginatedFields s' = PaginatedFields s @ [p1, p2]) \<and>
   (\<exists>s'. run (s\<lparr>PaginatedFields := []\<rparr>) [PaginationCall p1, PaginationCall p2] = Returned s' \<and>
         PaginatedFields s' = [p1, p2]) \<and>
   (\<exists>s'. run s (map PaginationCall ps) = Returned s' \<and>
         PaginatedFields s' = PaginatedFields s @ ps \<and>
         length (PaginatedFields s') = length (PaginatedFields s) + length ps)"
proof (intro conjI)
  show "\<exists>s'. run s [PaginationCall p1, PaginationCall p2] = Returned s' \<and>
          PaginatedFields s' = PaginatedFields s @ [p1, p2]"
    using run_PaginationCalls [of s "[p1, p2]"] by simp
  show "\<exists>s'. run (s\<lparr>PaginatedFields := []\<rparr>) [PaginationCall p1, PaginationCall p2] = Returned s' \<and>
          PaginatedFields s' = [p1, p2]"
    using run_PaginationCalls [of "s\<lparr>PaginatedFields := []\<rparr>" "[p1, p2]"] by simp
  show "\<exists>s'. run s (map PaginationCall ps) = Returned s' \<and>
          PaginatedFields s' = PaginatedFields s @ ps \<and>
          length (PaginatedFields s') = length (PaginatedFields s) + length ps"
    using run_PaginationCalls [of s ps] by simp
qed

theorem pagination_registration_appends_witness:
  "\<exists>s'. run \<lparr>Name = ''User'', Description = [], Type = (), Methods = None,
               PaginatedFields = [], key = []\<rparr>
            [PaginationCall \<lparr>PaginationObject.Name = ''friends'', PaginationObject.Fn = 1::nat\<rparr>,
             PaginationCall \<lparr>PaginationObject.Name = ''friends'', PaginationObject.Fn = 2\<rparr>] =
          Returned s' \<and>
        PaginatedFields s' =
          [\<lparr>PaginationObject.Name = ''friends'', PaginationObject.Fn = 1\<rparr>,
           \<lparr>PaginationObject.Name = ''friends'', PaginationObject.Fn = 2\<rparr>]"
proof -
  define s :: "(unit, nat) Object" where
    "s = \<lparr>Name = ''User'', Description = [], Type = (), Methods = None,
          PaginatedFields = [], key = []\<rparr>"
  define p1 :: "nat PaginationObject" where
    "p1 = \<lparr>PaginationObject.Name = ''friends'', PaginationObject.Fn = 1\<rparr>"
  define p2 :: "nat PaginationObject" where
    "p2 = \<lparr>PaginationObject.Name = ''friends'', PaginationObject.Fn = 2\<rparr>"
  from pagination_registration_appends [of s p1 p2 "[]"]
  obtain s' where "run s [PaginationCall p1, PaginationCall p2] = Returned s'"
    and "PaginatedFields s' = PaginatedFields s @ [p1, p2]"
    by blast
  then have "run s [PaginationCall p1, PaginationCall p2] = Returned s' \<and>
      PaginatedFields s' = [p1, p2]"
    by (simp add: s_def)
  then show ?thesis unfolding s_def p1_def p2_def by blast
qed

section \<open>Determinism\<close>

lemma register_same_outcome:
  assumes "same_contents a b"
  shows "same_outcome (register a c) (register b c)"
proof (cases c)
  case (FieldFuncCall name f options)
  from assms have reg: "registry a = registry b"
    by (simp add: same_contents_def)
  show ?thesis
  proof (cases "registry a name")
    case None
    with reg have "registry b name = None" by simp
    with None assms reg show ?thesis
      by (simp add: FieldFuncCall FieldFunc_fresh same_contents_def)
  next
    case (Some d)
    with reg have "registry b name = Some d" by simp
    with Some assms show ?thesis
      by (simp add: FieldFuncCall FieldFunc_duplicate)
  qed
next
  case (KeyCall f)
  with assms show ?thesis
    by (simp add: Key_def same_contents_def registry_def)
next
  case (PaginationCall p)
  with assms show ?thesis
    by (simp add: appendPaginatedField_def same_contents_def registry_def)
qed

lemma run_same_outcome:
  "same_contents a b \<Longrightarrow> same_outcome (run a cs) (run b cs)"
proof (induction cs arbitrary: a b)
  case Nil
  then show ?case by simp
next
  case (Cons c cs)
  from Cons.prems have step: "same_outcome (register a c) (register b c)"
    by (rule register_same_outcome)
  show ?case
  proof (cases "register a c")
    case (Returned a')
    with step obtain b' where b': "register b c = Returned b'" and "same_contents a' b'"
      by (cases "register b c") simp_all
    then have "same_outcome (run a' cs) (run b' cs)"
      using Cons.IH by blast
    with Returned b' show ?thesis by simp
  next
    case (Panicked msg a')
    with step obtain b' where "register b c = Panicked msg b'" and "same_contents a' b'"
      by (cases "register b c") simp_all
    with Panicked show ?thesis by simp
  qed
qed

text \<open>
  Claim C8. Running one sequence of \<^verbatim>\<open>FieldFunc\<close>, \<^verbatim>\<open>Key\<close> and
  pagination registrations from two equal objects ends in equal results; more generally,
  from two objects with the same contents (the same fields, a \<^verbatim>\<open>nil\<close> registry
  and an allocated registry without entries counting as the same) both runs return or
  both panic with the same message, and the two final objects have the same contents
  again: the same registry entries, the same key and the same pagination descriptors.
  A \<^verbatim>\<open>FieldFunc\<close> call whose name is already in the registry never returns and
  never replaces the entry: it panics, and the registry at the panic still has the old
  descriptor under that name.
\<close>

theorem registration_deterministic_no_overwrite:
  "(s1 = s2 \<longrightarrow> run s1 cs = run s2 cs) \<and>
   (same_contents s1 s2 \<longrightarrow> same_outcome (run s1 cs) (run s2 cs)) \<and>
   (registry s name = Some d \<longrightarrow>
      (\<exists>msg s'. FieldFunc s name f options = Panicked msg s' \<and> registry s' name = Some d) \<and>
      (\<forall>s'. FieldFunc s name f options \<noteq> Returned s'))"
proof (intro conjI impI)
  assume "s1 = s2"
  then show "run s1 cs = run s2 cs" by simp
next
  assume "same_contents s1 s2"
  then show "same_outcome (run s1 cs) (run s2 cs)" by (rule run_same_outcome)
next
  assume present: "registry s name = Some d"
  then have p: "FieldFunc s name f options = Panicked ''duplicate method'' s"
    by (rule FieldFunc_duplicate)
  with present show "\<exists>msg s'. FieldFunc s name f options = Panicked msg s' \<and> registry s' name = Some d"
    by simp
  from p show "\<forall>s'. FieldFunc s name f options \<noteq> Returned s'" by simp
qed

theorem registration_deterministic_no_overwrite_witness:
  "same_contents
     \<lparr>Name = ''User'', Description = [], Type = (), Methods = (None :: nat Methods option),
      PaginatedFields = [], key = []\<rparr>
     \<lparr>Name = ''User'', Description = [], Type = (), Methods = Some Map.empty,
      PaginatedFields = [], key = []\<rparr> \<and>
   same_outcome
     (run \<lparr>Name = ''User'', Description = [], Type = (), Methods = None,
           PaginatedFields = [], key = []\<rparr>
        [FieldFuncCall ''fullName'' (1::nat) [], FieldFuncCall ''age'' 2 [NonNullable],
         KeyCall ''fullName'', FieldFuncCall ''age'' 3 []])
     (run \<lparr>Name = ''User'', Description = [], Type = (), Methods = Some Map.empty,
           PaginatedFields = [], key = []\<rparr>
        [FieldFuncCall ''fullName'' (1::nat) [], FieldFuncCall ''age'' 2 [NonNullable],
         KeyCall ''fullName'', FieldFuncCall ''age'' 3 []]) \<and>
   (\<exists>s'. run \<lparr>Name = ''User'', Description = [], Type = (), Methods = None,
               PaginatedFields = [], key = []\<rparr>
            [FieldFuncCall ''fullName'' (1::nat) [], FieldFuncCall ''age'' 2 [NonNullable],
             KeyCall ''fullName'', FieldFuncCall ''age'' 3 []] =
          Panicked ''duplicate method'' s' \<and>
        registry s' ''age'' = Some \<lparr>MarkedNonNullable = True, Fn = 2\<rparr> \<and>
        registry s' ''fullName'' = Some \<lparr>MarkedNonNullable = False, Fn = 1\<rparr> \<and>
        key s' = ''fullName'')"
proof -
  define a :: "(unit, nat) Object" where
    "a = \<lparr>Name = ''User'', Description = [], Type = (), Methods = None,
          PaginatedFields = [], key = []\<rparr>"
  define b :: "(unit, nat) Object" where
    "b = \<lparr>Name = ''User'', Description = [], Type = (), Methods = Some Map.empty,
          PaginatedFields = [], key = []\<rparr>"
  define cs :: "nat registration list" where
    "cs = [FieldFuncCall ''fullName'' 1 [], FieldFuncCall ''age'' 2 [NonNullable],
           KeyCall ''fullName'', FieldFuncCall ''age'' 3 []]"
  define x :: "(unit, nat) Object" where
    "x = \<lparr>Name = ''User'', Description = [], Type = (),
          Methods = Some [''fullName'' \<mapsto> \<lparr>MarkedNonNullable = False, Fn = 1\<rparr>,
                          ''age'' \<mapsto> \<lparr>MarkedNonNullable = True, Fn = 2\<rparr>],
          PaginatedFields = [], key = ''fullName''\<rparr>"
  have same: "same_contents a b"
    by (simp add: same_contents_def a_def b_def)
  have built: "run a [FieldFuncCall ''fullName'' 1 [], FieldFuncCall ''age'' 2 [NonNullable],
                      KeyCall ''fullName''] = Returned x"
    by (simp add: FieldFunc_def lookup_def descriptor_def NonNullable_def Key_def a_def x_def)
  have present: "registry x ''age'' = Some \<lparr>MarkedNonNullable = True, Fn = 2\<rparr>"
    by (simp add: x_def)
  note det = registration_deterministic_no_overwrite
    [of a b cs x "''age''" "\<lparr>MarkedNonNullable = True, Fn = 2\<rparr>" 3 "[]"]
  from det same have agree: "same_outcome (run a cs) (run b cs)"
    by blast
  from det present obtain msg s'
    where p: "FieldFunc x ''age'' 3 [] = Panicked msg s'"
      and kept: "registry s' ''age'' = Some \<lparr>MarkedNonNullable = True, Fn = 2\<rparr>"
    by blast
  from p have "msg = ''duplicate method''" and s': "s' = x"
    by (simp_all add: FieldFunc_def lookup_def x_def)
  with p built have "run a cs = Panicked ''duplicate method'' x"
    by (simp add: cs_def FieldFunc_def lookup_def descriptor_def NonNullable_def Key_def a_def)
  moreover have "registry x ''fullName'' = Some \<lparr>MarkedNonNullable = False, Fn = 1\<rparr>"
    and "key x = ''fullName''"
    by (simp_all add: x_def)
  ultimately have "\<exists>s'. run a cs = Panicked ''duplicate method'' s' \<and>
      registry s' ''age'' = Some \<lparr>MarkedNonNullable = True, Fn = 2\<rparr> \<and>
      registry s' ''fullName'' = Some \<lparr>MarkedNonNullable = False, Fn = 1\<rparr> \<and>
      key s' = ''fullName''"
    using present by blast
  with same agree have "same_contents a b \<and> same_outcome (run a cs) (run b cs) \<and>
      (\<exists>s'. run a cs = Panicked ''duplicate method'' s' \<and>
         registry s' ''age'' = Some \<lparr>MarkedNonNullable = True, Fn = 2\<rparr> \<and>
         registry s' ''fullName'' = Some \<lparr>MarkedNonNullable = False, Fn = 1\<rparr> \<and>
         key s' = ''fullName'')"
    by (intro conjI)
  then show ?thesis
    unfolding a_def b_def cs_def .
qed

end
